theory Spec2Isabelle
  imports Main "HOL-Library.AList" "HOL-Library.Multiset"
begin

section \<open>Data model\<close>

text \<open>
  \<^verbatim>\<open>Pick<Issue, "created_at" | "closed_at">\<close>: the two timestamps the fetcher keeps of an
  issue. \<open>created_at\<close> is a string, \<open>closed_at\<close> is a string or \<open>null\<close>.
\<close>

record issue =
  created_at :: string
  closed_at :: "string option"

text \<open>
  An item of a raw page of \<^verbatim>\<open>octokit.rest.issues.listForRepo\<close>: the same two timestamps
  and the optional \<open>pull_request\<close> object, present exactly on pull requests.
\<close>

datatype pull_request_links = PullRequestLinks string

record raw_item = issue +
  pull_request :: "pull_request_links option"

text \<open>The value stored under a date key: \<^verbatim>\<open>{ totalOpened, totalClosed }\<close>.\<close>

record day =
  totalOpened :: int
  totalClosed :: int

text \<open>
  A \<open>Date\<close> value. The handler only ever passes a \<open>Date\<close> to \<open>isoDate\<close>, which keeps its
  calendar day, so a \<open>Date\<close> is modelled at day granularity, as a day number.
\<close>

type_synonym date = int

section \<open>The daily aggregation of \<open>handler\<close> (history.ts, lines 36 to 61)\<close>

text \<open>
  \<open>isoDate\<close> and \<open>eachDayUntilToday\<close> come from the module \<open>utils\<close>, and
  \<open>new Date(string)\<close> from the language; the aggregation takes \<open>isoDate\<close>, the parser
  \<open>newDate\<close> and the list \<open>days\<close> returned by \<open>eachDayUntilToday(FIRST_COMMIT_DATE)\<close> as
  parameters. Both functions are taken to return on every argument, as they do on the
  timestamps of the tracker. The counters are JavaScript numbers holding integers far
  below \<open>2^53\<close>; they are integers here.

  \<open>Object.fromEntries\<close>: an object keeps its string keys in the order of their first
  insertion, and a later entry with a key already present replaces the value in place.
  The object is an association list in that order. (Keys that are canonical array
  indices would be ordered numerically; date keys are not of that form.)
\<close>

definition fromEntries :: "(string \<times> 'v) list \<Rightarrow> (string \<times> 'v) list" where
  "fromEntries entries = foldl (\<lambda>obj (k, v). AList.update k v obj) [] entries"

definition initial_dates :: "(date \<Rightarrow> string) \<Rightarrow> date list \<Rightarrow> (string \<times> day) list" where
  "initial_dates isoDate days =
     fromEntries (map (\<lambda>date. (isoDate date, \<lparr>totalOpened = 0, totalClosed = 0\<rparr>)) days)"

text \<open>The two filter predicates of the loop body.\<close>

definition opened_on :: "(date \<Rightarrow> string) \<Rightarrow> (string \<Rightarrow> date) \<Rightarrow> string \<Rightarrow> issue \<Rightarrow> bool" where
  "opened_on isoDate newDate date i \<longleftrightarrow> isoDate (newDate (created_at i)) = date"

text \<open>\<^verbatim>\<open>i.closed_at && isoDate(new Date(i.closed_at)) === date\<close>: \<open>null\<close> and the empty string are falsy.\<close>

definition closed_on :: "(date \<Rightarrow> string) \<Rightarrow> (string \<Rightarrow> date) \<Rightarrow> string \<Rightarrow> issue \<Rightarrow> bool" where
  "closed_on isoDate newDate date i \<longleftrightarrow>
     (case closed_at i of
        None \<Rightarrow> False
      | Some c \<Rightarrow> c \<noteq> [] \<and> isoDate (newDate c) = date)"

text \<open>The variables the loop updates: the two accumulators and the object \<open>dates\<close>.\<close>

record aggregation =
  openedAccumulator :: int
  closedAccumulator :: int
  dates :: "(string \<times> day) list"

text \<open>One iteration of \<^verbatim>\<open>for (const date in dates)\<close>.\<close>

definition loop_body ::
  "(date \<Rightarrow> string) \<Rightarrow> (string \<Rightarrow> date) \<Rightarrow> issue list \<Rightarrow> aggregation \<Rightarrow> string \<Rightarrow> aggregation" where
  "loop_body isoDate newDate issues st date =
     (let issuesOpened = filter (opened_on isoDate newDate date) issues;
          issuesClosed = filter (closed_on isoDate newDate date) issues;
          closedAcc = closedAccumulator st + int (length issuesClosed);
          openedAcc = (if length issuesOpened \<noteq> 0
                       then openedAccumulator st + int (length issuesOpened)
                       else openedAccumulator st);
          openedAcc = openedAcc - int (length issuesClosed)
      in \<lparr>openedAccumulator = openedAcc,
          closedAccumulator = closedAcc,
          dates = AList.map_entry date
                    (\<lambda>d. \<lparr>totalOpened = totalOpened d + openedAcc,
                          totalClosed = totalClosed d + closedAcc\<rparr>)
                    (dates st)\<rparr>)"

text \<open>
  The whole aggregation: \<open>dates\<close> is built from the days, both accumulators start at 0,
  and the loop visits the keys of \<open>dates\<close> in the object's order.
\<close>

definition aggregate ::
  "(date \<Rightarrow> string) \<Rightarrow> (string \<Rightarrow> date) \<Rightarrow> date list \<Rightarrow> issue list \<Rightarrow> (string \<times> day) list" where
  "aggregate isoDate newDate days issues =
     (let dates0 = initial_dates isoDate days
      in dates (foldl (loop_body isoDate newDate issues)
                  \<lparr>openedAccumulator = 0, closedAccumulator = 0, dates = dates0\<rparr>
                  (map fst dates0)))"

section \<open>The Issue Fetcher: \<open>getIssues\<close> (history.ts, lines 90 to 145)\<close>

text \<open>
  What a call can throw. The handler's \<open>catch\<close> tells a
  \<open>PrismaClientKnownRequestError\<close>, which carries a code, from every other error.
\<close>

datatype error = PrismaClientKnownRequestError string | OtherError string

text \<open>
  \<^verbatim>\<open>page <= hardLimit\<close>, where \<open>hardLimit\<close> is \<^verbatim>\<open>options?.hardLimitPage ?? Infinity\<close>:
  \<open>None\<close> is the missing option, that is \<open>Infinity\<close>.
\<close>

definition within_limit :: "int \<Rightarrow> int option \<Rightarrow> bool" where
  "within_limit page hardLimitPage \<longleftrightarrow>
     (case hardLimitPage of None \<Rightarrow> True | Some hardLimit \<Rightarrow> page \<le> hardLimit)"

text \<open>\<^verbatim>\<open>{ closed_at: issue.closed_at, created_at: issue.created_at }\<close>\<close>

definition issue_of :: "raw_item \<Rightarrow> issue" where
  "issue_of item = \<lparr>created_at = created_at item, closed_at = closed_at item\<rparr>"

text \<open>
  The body of the branch for a non-empty page: the page is filtered to the items without
  \<open>pull_request\<close>, and the \<open>for\<close> loop, which checks \<open>pull_request\<close> once more, puts each
  item at the front of \<open>issues\<close> (\<open>unshift\<close>).
\<close>

definition unshift_page :: "raw_item list \<Rightarrow> issue list \<Rightarrow> issue list" where
  "unshift_page issuesPage issues =
     foldl (\<lambda>issues item. if pull_request item \<noteq> None then issues else issue_of item # issues)
       issues (filter (\<lambda>i. pull_request i = None) issuesPage)"

text \<open>
  The \<open>while\<close> loop. \<open>listForRepo page\<close> is the call of the tracker for one page, which
  returns the page or throws. The loop's state is \<open>page\<close> and \<open>issues\<close>; \<open>requested\<close>
  records the page numbers asked of the tracker, in order. The result is the pages
  requested together with the thrown error or the returned list; \<open>None\<close> is a loop that
  never ends (no ceiling and no empty page).
\<close>

partial_function (option) getIssues_loop ::
  "(int \<Rightarrow> error + raw_item list) \<Rightarrow> int option \<Rightarrow> int \<Rightarrow> issue list \<Rightarrow> int list
     \<Rightarrow> (int list \<times> (error + issue list)) option" where
  "getIssues_loop listForRepo hardLimitPage page issues requested =
     (if within_limit page hardLimitPage then
        (case listForRepo page of
           Inl e \<Rightarrow> Some (requested @ [page], Inl e)
         | Inr issuesPage \<Rightarrow>
             if length issuesPage \<noteq> 0
             then getIssues_loop listForRepo hardLimitPage (page + 1)
                    (unshift_page issuesPage issues) (requested @ [page])
             else Some (requested @ [page], Inr issues))
      else Some (requested, Inr issues))"

definition getIssues ::
  "(int \<Rightarrow> error + raw_item list) \<Rightarrow> int option \<Rightarrow> (int list \<times> (error + issue list)) option" where
  "getIssues listForRepo hardLimitPage = getIssues_loop listForRepo hardLimitPage 1 [] []"

section \<open>A calendar for \<open>utils\<close>\<close>

text \<open>
  Modelled from the spec: \<open>eachDayUntilToday\<close> of the module \<open>utils\<close>, which is not among
  the sources. The spec has it give "every calendar date in [start date, today]
  (inclusive, one entry per day, no gaps)". The clock's \<open>today\<close> is an argument.
\<close>

definition eachDayUntilToday :: "date \<Rightarrow> date \<Rightarrow> date list" where
  "eachDayUntilToday today start = [start..today]"

text \<open>
  Modelled from the spec: the calendar behind \<open>isoDate\<close> of the module \<open>utils\<close>, which
  is not among the sources. Day numbers count from 1970-01-01, and the civil date (year,
  month, day) of a day number is the one of the proleptic Gregorian calendar, in UTC.
\<close>

definition civil_from_days :: "int \<Rightarrow> int \<times> int \<times> int" where
  "civil_from_days z =
     (let z = z + 719468;
          era = z div 146097;
          doe = z mod 146097;
          yoe = (doe - doe div 1460 + doe div 36524 - doe div 146096) div 365;
          doy = doe - (365 * yoe + yoe div 4 - yoe div 100);
          mp = (5 * doy + 2) div 153;
          d = doy - (153 * mp + 2) div 5 + 1;
          m = (if mp < 10 then mp + 3 else mp - 9);
          y = yoe + era * 400
      in (if m \<le> 2 then y + 1 else y, m, d))"

text \<open>The day number of a civil date, for the parser of the examples.\<close>

definition days_from_civil :: "int \<Rightarrow> int \<Rightarrow> int \<Rightarrow> int" where
  "days_from_civil y m d =
     (let y = (if m \<le> 2 then y - 1 else y);
          era = y div 400;
          yoe = y mod 400;
          doy = (153 * (if m > 2 then m - 3 else m + 9) + 2) div 5 + d - 1;
          doe = yoe * 365 + yoe div 4 - yoe div 100 + doy
      in era * 146097 + doe - 719468)"

text \<open>Decimal digits, padded with zeros to two and to four places.\<close>

definition digit :: "int \<Rightarrow> char" where
  "digit n = char_of (48 + nat (n mod 10))"

definition pad2 :: "int \<Rightarrow> string" where
  "pad2 n = [digit (n div 10), digit n]"

definition pad4 :: "int \<Rightarrow> string" where
  "pad4 n = [digit (n div 1000), digit (n div 100), digit (n div 10), digit n]"

text \<open>
  Modelled from the spec: \<open>isoDate\<close> of the module \<open>utils\<close>, which is not among the sources.
  The spec has it give the "calendar date (ISO 8601, no time component)": \<open>YYYY-MM-DD\<close>.
  The claims about the aggregation are proved for every \<open>isoDate\<close>; this one serves the
  examples.
\<close>

definition isoDate_utc :: "date \<Rightarrow> string" where
  "isoDate_utc t =
     (case civil_from_days t of (y, m, d) \<Rightarrow> pad4 y @ ''-'' @ pad2 m @ ''-'' @ pad2 d)"

text \<open>
  The parser of the examples: \<open>new Date(string)\<close> on the timestamps of the tracker,
  which start with the ISO 8601 calendar date \<open>YYYY-MM-DD\<close> and are in UTC.
\<close>

definition number :: "string \<Rightarrow> int" where
  "number s = foldl (\<lambda>n c. 10 * n + (int (of_char c) - 48)) 0 s"

definition newDate_utc :: "string \<Rightarrow> date" where
  "newDate_utc s =
     days_from_civil (number (take 4 s)) (number (take 2 (drop 5 s))) (number (take 2 (drop 8 s)))"

section \<open>The Persistence Gateway\<close>

text \<open>
  Modelled from the spec: the datastore behind \<open>lib/prisma\<close>, which is not among the
  sources. The spec has \<open>createDay(record)\<close> fail with the duplicate-key error when a
  record of that date exists ("dates are unique across the whole stored history"), and
  the bulk variant "all-or-nothing (atomic): if any record in the batch violates the
  uniqueness constraint, none are persisted". The datastore is the list of its day
  records; \<open>P2002\<close> is the code the handler tests for.
\<close>

type_synonym datastore = "(string \<times> day) list"

definition createDay :: "string \<times> day \<Rightarrow> datastore \<Rightarrow> error + datastore" where
  "createDay row db =
     (if fst row \<in> fst ` set db then Inl (PrismaClientKnownRequestError ''P2002'')
      else Inr (db @ [row]))"

text \<open>
  Modelled from the spec: \<open>createManyDaysTransactional\<close>, the transaction of the
  creations. They run in order on the state the transaction has reached; the first
  failure aborts it, and only the error is left: the caller keeps the prior state.
\<close>

fun createManyDaysTransactional :: "(string \<times> day) list \<Rightarrow> datastore \<Rightarrow> error + datastore" where
  "createManyDaysTransactional [] db = Inr db"
| "createManyDaysTransactional (row # rows) db =
     (case createDay row db of
        Inl e \<Rightarrow> Inl e
      | Inr db' \<Rightarrow> createManyDaysTransactional rows db')"

section \<open>The request handler (history.ts, lines 17 to 89)\<close>

text \<open>The fields of the request that the handler reads: \<open>req.method\<close> (here \<open>req_method\<close>) and
  those of \<open>req.body\<close>.\<close>

record request =
  req_method :: string
  secret :: "string option"
  owner :: "string option"
  repo :: "string option"
  page_limit :: "int option"
  skip_save :: bool

text \<open>
  What the handler sends: \<^verbatim>\<open>res.status(n).end(text)\<close> or \<^verbatim>\<open>res.status(n).json(value)\<close>,
  where \<open>res.json\<close> alone has status 200.
\<close>

datatype json = Message string | Dates "(string \<times> day) list"

datatype response = End nat string | Json nat json

text \<open>\<^verbatim>\<open>a ?? b\<close>\<close>

definition nullish :: "'a option \<Rightarrow> 'a \<Rightarrow> 'a" where
  "nullish a b = (case a of None \<Rightarrow> b | Some v \<Rightarrow> v)"

text \<open>The \<open>catch\<close> block.\<close>

definition catch_error :: "error \<Rightarrow> response" where
  "catch_error e =
     (case e of
        PrismaClientKnownRequestError code \<Rightarrow>
          if code = ''P2002'' then Json 400 (Message ''Already exists'')
          else Json 500 (Message ''Internal server error'')
      | OtherError _ \<Rightarrow> Json 500 (Message ''Internal server error''))"

definition FIRST_COMMIT_DATE :: "(string \<Rightarrow> date) \<Rightarrow> date" where
  "FIRST_COMMIT_DATE newDate = newDate ''2016-10-05''"

text \<open>
  The handler, from the state of the datastore to the response and the state it leaves.
  \<open>SECRET\<close> is \<open>process.env.SECRET\<close>, \<open>listForRepo owner repo page\<close> the tracker, \<open>today\<close>
  the clock. Every throw inside \<open>try\<close> ends in \<open>catch_error\<close>.
\<close>

definition handler ::
  "string option \<Rightarrow> (string \<Rightarrow> string \<Rightarrow> int \<Rightarrow> error + raw_item list) \<Rightarrow>
   (date \<Rightarrow> string) \<Rightarrow> (string \<Rightarrow> date) \<Rightarrow> date \<Rightarrow>
   request \<Rightarrow> datastore \<Rightarrow> (response \<times> datastore) option" where
  "handler SECRET listForRepo isoDate newDate today req db =
     (if req_method req \<noteq> ''POST'' then Some (End 405 ''Method not allowed'', db)
      else if SECRET \<noteq> secret req then Some (Json 401 (Message ''Unauthorized''), db)
      else
        (case getIssues
                (listForRepo (nullish (owner req) ''vercel'') (nullish (repo req) ''next.js''))
                (Some (nullish (page_limit req) 2)) of
           None \<Rightarrow> None
         | Some (requested, Inl e) \<Rightarrow> Some (catch_error e, db)
         | Some (requested, Inr issues) \<Rightarrow>
             (let dates = aggregate isoDate newDate
                            (eachDayUntilToday today (FIRST_COMMIT_DATE newDate)) issues
              in if skip_save req then Some (Json 200 (Dates dates), db)
                 else
                   (case createManyDaysTransactional dates db of
                      Inl e \<Rightarrow> Some (catch_error e, db)
                    | Inr db' \<Rightarrow> Some (Json 200 (Dates dates), db')))))"

section \<open>Auxiliary notions for the proofs\<close>

text \<open>The keys of a list in the order of their first occurrence.\<close>

definition first_occurrences :: "'a list \<Rightarrow> 'a list" where
  "first_occurrences xs = rev (remdups (rev xs))"

text \<open>
  The running totals written as a recursion over the keys: \<open>opn k\<close> and \<open>cls k\<close> are the
  numbers of issues opened and closed on the key \<open>k\<close>, and \<open>oa\<close>, \<open>ca\<close> the accumulators
  before the first key.
\<close>

fun running :: "(string \<Rightarrow> int) \<Rightarrow> (string \<Rightarrow> int) \<Rightarrow> int \<Rightarrow> int \<Rightarrow> string list \<Rightarrow> (string \<times> day) list" where
  "running opn cls oa ca [] = []"
| "running opn cls oa ca (k # ks) =
     (k, \<lparr>totalOpened = oa + opn k - cls k, totalClosed = ca + cls k\<rparr>)
       # running opn cls (oa + opn k - cls k) (ca + cls k) ks"

definition opened_count :: "(date \<Rightarrow> string) \<Rightarrow> (string \<Rightarrow> date) \<Rightarrow> issue list \<Rightarrow> string \<Rightarrow> int" where
  "opened_count isoDate newDate issues k = int (length (filter (opened_on isoDate newDate k) issues))"

definition closed_count :: "(date \<Rightarrow> string) \<Rightarrow> (string \<Rightarrow> date) \<Rightarrow> issue list \<Rightarrow> string \<Rightarrow> int" where
  "closed_count isoDate newDate issues k = int (length (filter (closed_on isoDate newDate k) issues))"

text \<open>The keys of the aggregated mapping: the ISO dates of the days, each once.\<close>

definition date_keys :: "(date \<Rightarrow> string) \<Rightarrow> date list \<Rightarrow> string list" where
  "date_keys isoDate days = first_occurrences (map isoDate days)"

definition zero_day :: day where
  "zero_day = \<lparr>totalOpened = 0, totalClosed = 0\<rparr>"

text \<open>
  The issues created on one of the keys \<open>ks\<close>, and the issues closed on one of them.
  For the keys of the days from the start date to a day, these are the issues created,
  and closed, in that range of days.
\<close>

definition created_within :: "(date \<Rightarrow> string) \<Rightarrow> (string \<Rightarrow> date) \<Rightarrow> string list \<Rightarrow> issue list \<Rightarrow> issue list" where
  "created_within isoDate newDate ks issues =
     filter (\<lambda>i. isoDate (newDate (created_at i)) \<in> set ks) issues"

definition closed_within :: "(date \<Rightarrow> string) \<Rightarrow> (string \<Rightarrow> date) \<Rightarrow> string list \<Rightarrow> issue list \<Rightarrow> issue list" where
  "closed_within isoDate newDate ks issues =
     filter (\<lambda>i. \<exists>k\<in>set ks. closed_on isoDate newDate k i) issues"

text \<open>The items of the pages \<open>requested\<close> that the tracker returned.\<close>

definition fetched :: "(int \<Rightarrow> error + raw_item list) \<Rightarrow> int list \<Rightarrow> raw_item list" where
  "fetched listForRepo requested =
     concat (map (\<lambda>page. case listForRepo page of Inl e \<Rightarrow> [] | Inr issuesPage \<Rightarrow> issuesPage) requested)"

text \<open>
  A tracker for the examples: page 1 holds an issue and a pull request, page 2 an issue,
  and every later page is empty.
\<close>

definition example_tracker :: "int \<Rightarrow> error + raw_item list" where
  "example_tracker page =
     (if page = 1 then
        Inr [\<lparr>created_at = ''2016-10-05T16:35:00Z'', closed_at = Some ''2016-10-06T09:30:00Z'',
              pull_request = None\<rparr>,
             \<lparr>created_at = ''2016-10-05T20:10:00Z'', closed_at = Some ''2016-10-05T20:10:00Z'',
              pull_request = Some (PullRequestLinks ''https://example.org/pull/2'')\<rparr>]
      else if page = 2 then
        Inr [\<lparr>created_at = ''2016-10-05T20:10:00Z'', closed_at = None, pull_request = None\<rparr>]
      else Inr [])"

section \<open>Properties of the aggregation\<close>

subsection \<open>The object built by \<open>Object.fromEntries\<close>\<close>

lemma update_constant_entries:
  "AList.update k z (map (\<lambda>k. (k, z)) ks) =
     (if k \<in> set ks then map (\<lambda>k. (k, z)) ks else map (\<lambda>k. (k, z)) (ks @ [k]))"
  by (induction ks) auto

lemma first_occurrences_snoc:
  "first_occurrences (xs @ [x]) =
     (if x \<in> set xs then first_occurrences xs else first_occurrences xs @ [x])"
  by (simp add: first_occurrences_def)

lemma set_first_occurrences [simp]: "set (first_occurrences xs) = set xs"
  by (simp add: first_occurrences_def)

lemma distinct_first_occurrences [simp]: "distinct (first_occurrences xs)"
  by (simp add: first_occurrences_def)

lemma first_occurrences_distinct: "distinct xs \<Longrightarrow> first_occurrences xs = xs"
  by (simp add: first_occurrences_def distinct_remdups_id)

lemma fromEntries_constant:
  "fromEntries (map (\<lambda>d. (f d, z)) ds) = map (\<lambda>k. (k, z)) (first_occurrences (map f ds))"
proof (induction ds rule: rev_induct)
  case Nil
  show ?case by (simp add: fromEntries_def first_occurrences_def)
next
  case (snoc d ds)
  have "fromEntries (map (\<lambda>d. (f d, z)) (ds @ [d])) =
          AList.update (f d) z (fromEntries (map (\<lambda>d. (f d, z)) ds))"
    by (simp add: fromEntries_def)
  also have "\<dots> = AList.update (f d) z (map (\<lambda>k. (k, z)) (first_occurrences (map f ds)))"
    by (simp only: snoc.IH)
  finally show ?case
    by (simp add: update_constant_entries first_occurrences_snoc)
qed

lemma initial_dates_keys:
  "initial_dates isoDate days = map (\<lambda>k. (k, zero_day)) (date_keys isoDate days)"
  unfolding initial_dates_def date_keys_def zero_day_def by (rule fromEntries_constant)

subsection \<open>The loop computes the running totals\<close>

lemma map_entry_fresh_prefix:
  "k \<notin> fst ` set pre \<Longrightarrow>
     AList.map_entry k f (pre @ (k, v) # rest) = pre @ (k, f v) # rest"
  by (induction pre) auto

lemma loop_body_step:
  assumes "k \<notin> fst ` set pre"
  shows "loop_body isoDate newDate issues
           \<lparr>openedAccumulator = oa, closedAccumulator = ca,
            dates = pre @ (k, zero_day) # rest\<rparr> k =
         \<lparr>openedAccumulator = oa + opened_count isoDate newDate issues k
                                  - closed_count isoDate newDate issues k,
          closedAccumulator = ca + closed_count isoDate newDate issues k,
          dates = pre @ (k, \<lparr>totalOpened = oa + opened_count isoDate newDate issues k
                                              - closed_count isoDate newDate issues k,
                             totalClosed = ca + closed_count isoDate newDate issues k\<rparr>) # rest\<rparr>"
  using assms
  by (simp add: loop_body_def Let_def map_entry_fresh_prefix opened_count_def closed_count_def
      zero_day_def)

lemma loop_running:
  assumes "distinct ks" and "set ks \<inter> fst ` set pre = {}"
  shows "dates (foldl (loop_body isoDate newDate issues)
                  \<lparr>openedAccumulator = oa, closedAccumulator = ca,
                   dates = pre @ map (\<lambda>k. (k, zero_day)) ks\<rparr> ks) =
         pre @ running (opened_count isoDate newDate issues) (closed_count isoDate newDate issues)
                 oa ca ks"
  using assms
proof (induction ks arbitrary: oa ca pre)
  case Nil
  show ?case by simp
next
  case (Cons k ks)
  let ?oa = "oa + opened_count isoDate newDate issues k - closed_count isoDate newDate issues k"
  let ?ca = "ca + closed_count isoDate newDate issues k"
  let ?pre = "pre @ [(k, \<lparr>totalOpened = ?oa, totalClosed = ?ca\<rparr>)]"
  from Cons.prems have fresh: "k \<notin> fst ` set pre" by auto
  from Cons.prems have d: "distinct ks" and disj: "set ks \<inter> fst ` set ?pre = {}" by auto
  have "dates (foldl (loop_body isoDate newDate issues)
                  \<lparr>openedAccumulator = ?oa, closedAccumulator = ?ca,
                   dates = ?pre @ map (\<lambda>k. (k, zero_day)) ks\<rparr> ks) =
        ?pre @ running (opened_count isoDate newDate issues) (closed_count isoDate newDate issues)
                 ?oa ?ca ks"
    by (rule Cons.IH [OF d disj])
  then show ?case
    by (simp add: loop_body_step [OF fresh])
qed

lemma aggregate_running:
  "aggregate isoDate newDate days issues =
     running (opened_count isoDate newDate issues) (closed_count isoDate newDate issues) 0 0
       (date_keys isoDate days)"
proof -
  have keys: "map fst (map (\<lambda>k. (k, zero_day)) (date_keys isoDate days)) = date_keys isoDate days"
    by (simp add: comp_def)
  have "distinct (date_keys isoDate days)"
    by (simp add: date_keys_def)
  then have "dates (foldl (loop_body isoDate newDate issues)
                  \<lparr>openedAccumulator = 0, closedAccumulator = 0,
                   dates = [] @ map (\<lambda>k. (k, zero_day)) (date_keys isoDate days)\<rparr>
                  (date_keys isoDate days)) =
         [] @ running (opened_count isoDate newDate issues) (closed_count isoDate newDate issues)
                 0 0 (date_keys isoDate days)"
    by (intro loop_running) simp_all
  then show ?thesis
    by (simp add: aggregate_def Let_def initial_dates_keys keys del: map_map)
qed

lemma running_keys [simp]: "map fst (running opn cls oa ca ks) = ks"
  by (induction ks arbitrary: oa ca) simp_all

lemma running_length [simp]: "length (running opn cls oa ca ks) = length ks"
  by (induction ks arbitrary: oa ca) simp_all

lemma running_nth:
  "j < length ks \<Longrightarrow>
     running opn cls oa ca ks ! j =
       (ks ! j,
        \<lparr>totalOpened = oa + sum_list (map opn (take (Suc j) ks)) - sum_list (map cls (take (Suc j) ks)),
         totalClosed = ca + sum_list (map cls (take (Suc j) ks))\<rparr>)"
proof (induction ks arbitrary: oa ca j)
  case Nil
  then show ?case by simp
next
  case (Cons k ks)
  show ?case
  proof (cases j)
    case 0
    then show ?thesis by simp
  next
    case (Suc n)
    with Cons.prems have "n < length ks" by simp
    from Cons.IH [OF this] Suc show ?thesis by simp
  qed
qed

subsection \<open>Counting issues over a range of keys\<close>

lemma length_filter_disj:
  "(\<And>x. x \<in> set xs \<Longrightarrow> \<not> (A x \<and> B x)) \<Longrightarrow>
     length (filter (\<lambda>x. A x \<or> B x) xs) = length (filter A xs) + length (filter B xs)"
  by (induction xs) auto

lemma length_filter_mono:
  "(\<And>x. x \<in> set xs \<Longrightarrow> A x \<Longrightarrow> B x) \<Longrightarrow> length (filter A xs) \<le> length (filter B xs)"
  by (induction xs) auto

lemma sum_counts:
  assumes "distinct ks" and unique: "\<And>k k' x. P k x \<Longrightarrow> P k' x \<Longrightarrow> k = k'"
  shows "sum_list (map (\<lambda>k. int (length (filter (P k) xs))) ks) =
           int (length (filter (\<lambda>x. \<exists>k\<in>set ks. P k x) xs))"
  using assms(1)
proof (induction ks)
  case Nil
  show ?case by simp
next
  case (Cons k ks)
  have split: "(\<lambda>x. \<exists>k'\<in>set (k # ks). P k' x) = (\<lambda>x. P k x \<or> (\<exists>k'\<in>set ks. P k' x))"
    by auto
  have "length (filter (\<lambda>x. P k x \<or> (\<exists>k'\<in>set ks. P k' x)) xs) =
          length (filter (P k) xs) + length (filter (\<lambda>x. \<exists>k'\<in>set ks. P k' x) xs)"
  proof (rule length_filter_disj)
    fix x
    show "\<not> (P k x \<and> (\<exists>k'\<in>set ks. P k' x))"
      using Cons.prems unique by auto
  qed
  with Cons show ?case
    by (simp add: split)
qed

lemma opened_on_unique:
  "opened_on isoDate newDate k i \<Longrightarrow> opened_on isoDate newDate k' i \<Longrightarrow> k = k'"
  by (simp add: opened_on_def)

lemma closed_on_unique:
  "closed_on isoDate newDate k i \<Longrightarrow> closed_on isoDate newDate k' i \<Longrightarrow> k = k'"
  by (auto simp: closed_on_def split: option.splits)

lemma sum_opened_count:
  "distinct ks \<Longrightarrow>
     sum_list (map (opened_count isoDate newDate issues) ks) =
       int (length (created_within isoDate newDate ks issues))"
proof -
  assume d: "distinct ks"
  have "sum_list (map (\<lambda>k. int (length (filter (opened_on isoDate newDate k) issues))) ks) =
          int (length (filter (\<lambda>i. \<exists>k\<in>set ks. opened_on isoDate newDate k i) issues))"
    using d opened_on_unique by (rule sum_counts)
  moreover have "(\<lambda>i. \<exists>k\<in>set ks. opened_on isoDate newDate k i) =
                   (\<lambda>i. isoDate (newDate (created_at i)) \<in> set ks)"
    by (auto simp: opened_on_def)
  ultimately show ?thesis
    by (simp add: opened_count_def [abs_def] created_within_def)
qed

lemma sum_closed_count:
  "distinct ks \<Longrightarrow>
     sum_list (map (closed_count isoDate newDate issues) ks) =
       int (length (closed_within isoDate newDate ks issues))"
proof -
  assume d: "distinct ks"
  have "sum_list (map (\<lambda>k. int (length (filter (closed_on isoDate newDate k) issues))) ks) =
          int (length (filter (\<lambda>i. \<exists>k\<in>set ks. closed_on isoDate newDate k i) issues))"
    using d closed_on_unique by (rule sum_counts)
  then show ?thesis
    by (simp add: closed_count_def [abs_def] closed_within_def)
qed

lemma distinct_date_keys [simp]: "distinct (date_keys isoDate days)"
  by (simp add: date_keys_def)

lemma aggregate_keys: "map fst (aggregate isoDate newDate days issues) = date_keys isoDate days"
  by (simp add: aggregate_running)

lemma aggregate_length: "length (aggregate isoDate newDate days issues) = length (date_keys isoDate days)"
  by (simp add: aggregate_running)

lemma aggregate_nth:
  assumes "j < length (date_keys isoDate days)"
  shows "aggregate isoDate newDate days issues ! j =
           (date_keys isoDate days ! j,
            \<lparr>totalOpened =
               int (length (created_within isoDate newDate (take (Suc j) (date_keys isoDate days)) issues))
               - int (length (closed_within isoDate newDate (take (Suc j) (date_keys isoDate days)) issues)),
             totalClosed =
               int (length (closed_within isoDate newDate (take (Suc j) (date_keys isoDate days)) issues))\<rparr>)"
proof -
  have d: "distinct (take (Suc j) (date_keys isoDate days))"
    by simp
  show ?thesis
    by (simp add: aggregate_running running_nth [OF assms] sum_opened_count [OF d]
        sum_closed_count [OF d])
qed

subsection \<open>The order of the issues\<close>

lemma aggregate_mset:
  assumes "mset issues = mset issues'"
  shows "aggregate isoDate newDate days issues = aggregate isoDate newDate days issues'"
proof -
  have len: "length (filter P issues) = length (filter P issues')" for P
  proof -
    have "size (filter_mset P (mset issues)) = size (filter_mset P (mset issues'))"
      by (simp only: assms)
    then show ?thesis
      by (simp only: mset_filter [symmetric] size_mset)
  qed
  have "opened_count isoDate newDate issues = opened_count isoDate newDate issues'"
    by (rule ext) (simp add: opened_count_def len)
  moreover have "closed_count isoDate newDate issues = closed_count isoDate newDate issues'"
    by (rule ext) (simp add: closed_count_def len)
  ultimately show ?thesis
    by (simp add: aggregate_running)
qed

subsection \<open>The calendar on the days of the examples\<close>

lemma isoDate_utc_17078: "isoDate_utc 17078 = ''2016-10-04''"
  by code_simp

lemma isoDate_utc_17079: "isoDate_utc 17079 = ''2016-10-05''"
  by code_simp

lemma isoDate_utc_17080: "isoDate_utc 17080 = ''2016-10-06''"
  by code_simp

lemma isoDate_utc_17081: "isoDate_utc 17081 = ''2016-10-07''"
  by code_simp

lemma newDate_utc_oct4: "newDate_utc ''2016-10-04T18:00:00Z'' = 17078"
  by code_simp

lemma newDate_utc_first_commit: "newDate_utc ''2016-10-05'' = 17079"
  by code_simp

lemma newDate_utc_oct5: "newDate_utc ''2016-10-05T16:35:00Z'' = 17079"
  by code_simp

lemma newDate_utc_oct5': "newDate_utc ''2016-10-05T20:10:00Z'' = 17079"
  by code_simp

lemma newDate_utc_oct6: "newDate_utc ''2016-10-06T09:30:00Z'' = 17080"
  by code_simp

lemmas calendar_examples =
  isoDate_utc_17078 isoDate_utc_17079 isoDate_utc_17080 isoDate_utc_17081
  newDate_utc_oct4 newDate_utc_oct5 newDate_utc_oct5' newDate_utc_oct6 newDate_utc_first_commit

lemma eachDay_3: "eachDayUntilToday 17081 17079 = [17079, 17080, 17081]"
  by (simp add: eachDayUntilToday_def)

lemma eachDay_2: "eachDayUntilToday 17080 17079 = [17079, 17080]"
  by (simp add: eachDayUntilToday_def)

lemma eachDay_1: "eachDayUntilToday 17079 17079 = [17079]"
  by (simp add: eachDayUntilToday_def)

lemma date_keys_3:
  "date_keys isoDate_utc [17079, 17080, 17081] = [''2016-10-05'', ''2016-10-06'', ''2016-10-07'']"
  by (simp add: date_keys_def first_occurrences_def calendar_examples)

lemma date_keys_2:
  "date_keys isoDate_utc [17079, 17080] = [''2016-10-05'', ''2016-10-06'']"
  by (simp add: date_keys_def first_occurrences_def calendar_examples)

lemma date_keys_1: "date_keys isoDate_utc [17079] = [''2016-10-05'']"
  by (simp add: date_keys_def first_occurrences_def calendar_examples)

lemmas aggregate_eval =
  aggregate_running opened_count_def closed_count_def opened_on_def closed_on_def
  date_keys_1 date_keys_2 date_keys_3 eachDay_1 eachDay_2 eachDay_3 calendar_examples

section \<open>The claims about the Daily Aggregator\<close>

text \<open>
  C1, as it stands, fails on the code: the loop subtracts the closures of a day from the
  opened accumulator and never clamps it. An issue created before the start date and
  closed on the start date gives the stored \<open>totalOpened = -1\<close>.
\<close>

theorem totalOpened_negative_counterexample:
  "aggregate isoDate_utc newDate_utc (eachDayUntilToday 17079 17079)
     [\<lparr>created_at = ''2016-10-04T18:00:00Z'', closed_at = Some ''2016-10-05T16:35:00Z''\<rparr>] =
   [(''2016-10-05'', \<lparr>totalOpened = - 1, totalClosed = 1\<rparr>)]"
  by (simp add: aggregate_eval)

text \<open>
  C1, amended: when every issue that is closed on a day of the range was created on a
  day of the range that is not later, no stored \<open>totalOpened\<close> is negative.
\<close>

theorem totalOpened_nonnegative:
  assumes "\<forall>i\<in>set issues. \<forall>n<length (date_keys isoDate days).
             closed_on isoDate newDate (date_keys isoDate days ! n) i \<longrightarrow>
             (\<exists>m\<le>n. opened_on isoDate newDate (date_keys isoDate days ! m) i)"
  shows "\<forall>(k, r)\<in>set (aggregate isoDate newDate days issues). 0 \<le> totalOpened r"
proof -
  let ?ks = "date_keys isoDate days"
  have "0 \<le> totalOpened (snd (aggregate isoDate newDate days issues ! j))"
    if j: "j < length ?ks" for j
  proof -
    have "length (closed_within isoDate newDate (take (Suc j) ?ks) issues)
            \<le> length (created_within isoDate newDate (take (Suc j) ?ks) issues)"
      unfolding closed_within_def created_within_def
    proof (rule length_filter_mono)
      fix i
      assume i: "i \<in> set issues"
        and "\<exists>k\<in>set (take (Suc j) ?ks). closed_on isoDate newDate k i"
      then obtain k where k: "k \<in> set (take (Suc j) ?ks)" and c: "closed_on isoDate newDate k i"
        by blast
      from k obtain n where n: "n < Suc j" "n < length ?ks" "k = ?ks ! n"
        by (auto simp: in_set_conv_nth)
      with assms i c obtain m where m: "m \<le> n" "opened_on isoDate newDate (?ks ! m) i"
        by blast
      from m n j have "?ks ! m \<in> set (take (Suc j) ?ks)"
        by (auto simp: in_set_conv_nth intro!: exI [of _ m])
      with m show "isoDate (newDate (created_at i)) \<in> set (take (Suc j) ?ks)"
        by (simp add: opened_on_def)
    qed
    then show ?thesis
      by (simp add: aggregate_nth [OF j])
  qed
  note nonneg = this
  show ?thesis
  proof (clarify)
    fix k r
    assume "(k, r) \<in> set (aggregate isoDate newDate days issues)"
    then obtain j where "j < length ?ks" and "aggregate isoDate newDate days issues ! j = (k, r)"
      by (auto simp: in_set_conv_nth aggregate_length)
    with nonneg [of j] show "0 \<le> totalOpened r"
      by simp
  qed
qed

theorem totalOpened_nonnegative_witness:
  "list_all (\<lambda>(k, r). 0 \<le> totalOpened r)
     (aggregate isoDate_utc newDate_utc (eachDayUntilToday 17080 17079)
       [\<lparr>created_at = ''2016-10-05T16:35:00Z'', closed_at = Some ''2016-10-06T09:30:00Z''\<rparr>,
        \<lparr>created_at = ''2016-10-05T20:10:00Z'', closed_at = None\<rparr>])"
proof -
  let ?issues = "[\<lparr>created_at = ''2016-10-05T16:35:00Z'', closed_at = Some ''2016-10-06T09:30:00Z''\<rparr>,
                  \<lparr>created_at = ''2016-10-05T20:10:00Z'', closed_at = None\<rparr>]"
  let ?days = "eachDayUntilToday 17080 17079"
  have "\<forall>i\<in>set ?issues. \<forall>n<length (date_keys isoDate_utc ?days).
          closed_on isoDate_utc newDate_utc (date_keys isoDate_utc ?days ! n) i \<longrightarrow>
          (\<exists>m\<le>n. opened_on isoDate_utc newDate_utc (date_keys isoDate_utc ?days ! m) i)"
    by (simp add: eachDay_2 date_keys_2 closed_on_def opened_on_def calendar_examples
        less_Suc_eq le_Suc_eq numeral_2_eq_2 conj_disj_distribR ex_disj_distrib)
  from totalOpened_nonnegative [OF this] show ?thesis
    by (simp only: list_all_iff)
qed

text \<open>
  C2, as it stands, fails on the code: \<open>totalOpened\<close> is the net number of open issues and
  falls on a day with more closures than creations. On the first worked example of the
  spec it goes from 1 on 2016-10-05 to 0 on 2016-10-06.
\<close>

theorem totalOpened_decreases_counterexample:
  "totalOpened (snd (aggregate isoDate_utc newDate_utc (eachDayUntilToday 17081 17079)
       [\<lparr>created_at = ''2016-10-05T16:35:00Z'', closed_at = Some ''2016-10-06T09:30:00Z''\<rparr>] ! 1))
   < totalOpened (snd (aggregate isoDate_utc newDate_utc (eachDayUntilToday 17081 17079)
       [\<lparr>created_at = ''2016-10-05T16:35:00Z'', closed_at = Some ''2016-10-06T09:30:00Z''\<rparr>] ! 0))"
  by (simp add: aggregate_eval)

text \<open>
  C2, amended: over every pair of consecutive dates of the aggregated range the stored
  \<open>totalClosed\<close> is non-decreasing, and the stored \<open>totalOpened\<close> is non-decreasing
  exactly when no more issues were closed than opened on the later date.
\<close>

theorem totals_consecutive_days:
  assumes "Suc j < length (aggregate isoDate newDate days issues)"
  shows "totalClosed (snd (aggregate isoDate newDate days issues ! j))
           \<le> totalClosed (snd (aggregate isoDate newDate days issues ! Suc j)) \<and>
         (totalOpened (snd (aggregate isoDate newDate days issues ! j))
            \<le> totalOpened (snd (aggregate isoDate newDate days issues ! Suc j)) \<longleftrightarrow>
          closed_count isoDate newDate issues (fst (aggregate isoDate newDate days issues ! Suc j))
            \<le> opened_count isoDate newDate issues (fst (aggregate isoDate newDate days issues ! Suc j)))"
proof -
  let ?ks = "date_keys isoDate days"
  from assms have sj: "Suc j < length ?ks"
    by (simp add: aggregate_length)
  then have j: "j < length ?ks"
    by simp
  have t: "take (Suc (Suc j)) ?ks = take (Suc j) ?ks @ [?ks ! Suc j]"
    using sj by (rule take_Suc_conv_app_nth)
  have "0 \<le> closed_count isoDate newDate issues (?ks ! Suc j)"
    by (simp add: closed_count_def)
  then show ?thesis
    unfolding aggregate_running running_nth [OF j] running_nth [OF sj] t
    by simp
qed

theorem totals_consecutive_days_witness:
  "totalClosed (snd (aggregate isoDate_utc newDate_utc (eachDayUntilToday 17081 17079)
       [\<lparr>created_at = ''2016-10-05T16:35:00Z'', closed_at = Some ''2016-10-06T09:30:00Z''\<rparr>] ! 0))
     \<le> totalClosed (snd (aggregate isoDate_utc newDate_utc (eachDayUntilToday 17081 17079)
       [\<lparr>created_at = ''2016-10-05T16:35:00Z'', closed_at = Some ''2016-10-06T09:30:00Z''\<rparr>] ! Suc 0))"
proof -
  have "Suc 0 < length (aggregate isoDate_utc newDate_utc (eachDayUntilToday 17081 17079)
       [\<lparr>created_at = ''2016-10-05T16:35:00Z'', closed_at = Some ''2016-10-06T09:30:00Z''\<rparr>])"
    by (simp add: aggregate_length eachDay_3 date_keys_3)
  from totals_consecutive_days [OF this] show ?thesis
    by (rule conjunct1)
qed

text \<open>
  C3: the two worked examples of the spec. Whatever \<open>isoDate\<close> and the parser are, when
  the days from the start date to today have the keys of the example and the timestamps
  of the issues fall on the dates of the example, the aggregation gives the stated
  mapping: (1) one issue created 2016-10-05 and closed 2016-10-06, over the three days
  to 2016-10-07; (2) two issues created 2016-10-05, one closed 2016-10-06 and one never
  closed, over the two days to 2016-10-06.
\<close>

theorem worked_examples:
  assumes "map isoDate days3 = [''2016-10-05'', ''2016-10-06'', ''2016-10-07'']"
    and "map isoDate days2 = [''2016-10-05'', ''2016-10-06'']"
    and "isoDate (newDate c1) = ''2016-10-05''"
    and "isoDate (newDate c2) = ''2016-10-05''"
    and "k \<noteq> []" and "isoDate (newDate k) = ''2016-10-06''"
  shows "aggregate isoDate newDate days3 [\<lparr>created_at = c1, closed_at = Some k\<rparr>] =
           [(''2016-10-05'', \<lparr>totalOpened = 1, totalClosed = 0\<rparr>),
            (''2016-10-06'', \<lparr>totalOpened = 0, totalClosed = 1\<rparr>),
            (''2016-10-07'', \<lparr>totalOpened = 0, totalClosed = 1\<rparr>)] \<and>
         aggregate isoDate newDate days2
           [\<lparr>created_at = c1, closed_at = Some k\<rparr>, \<lparr>created_at = c2, closed_at = None\<rparr>] =
           [(''2016-10-05'', \<lparr>totalOpened = 2, totalClosed = 0\<rparr>),
            (''2016-10-06'', \<lparr>totalOpened = 1, totalClosed = 1\<rparr>)]"
  using assms
  by (simp add: aggregate_running date_keys_def first_occurrences_def opened_count_def
      closed_count_def opened_on_def closed_on_def)

theorem worked_examples_witness:
  "aggregate isoDate_utc newDate_utc (eachDayUntilToday 17081 17079)
     [\<lparr>created_at = ''2016-10-05T16:35:00Z'', closed_at = Some ''2016-10-06T09:30:00Z''\<rparr>] =
     [(''2016-10-05'', \<lparr>totalOpened = 1, totalClosed = 0\<rparr>),
      (''2016-10-06'', \<lparr>totalOpened = 0, totalClosed = 1\<rparr>),
      (''2016-10-07'', \<lparr>totalOpened = 0, totalClosed = 1\<rparr>)] \<and>
   aggregate isoDate_utc newDate_utc (eachDayUntilToday 17080 17079)
     [\<lparr>created_at = ''2016-10-05T16:35:00Z'', closed_at = Some ''2016-10-06T09:30:00Z''\<rparr>,
      \<lparr>created_at = ''2016-10-05T20:10:00Z'', closed_at = None\<rparr>] =
     [(''2016-10-05'', \<lparr>totalOpened = 2, totalClosed = 0\<rparr>),
      (''2016-10-06'', \<lparr>totalOpened = 1, totalClosed = 1\<rparr>)]"
proof -
  have d3: "map isoDate_utc (eachDayUntilToday 17081 17079) =
              [''2016-10-05'', ''2016-10-06'', ''2016-10-07'']"
    by (simp add: eachDay_3 calendar_examples)
  have d2: "map isoDate_utc (eachDayUntilToday 17080 17079) = [''2016-10-05'', ''2016-10-06'']"
    by (simp add: eachDay_2 calendar_examples)
  have c1: "isoDate_utc (newDate_utc ''2016-10-05T16:35:00Z'') = ''2016-10-05''"
    by (simp add: calendar_examples)
  have c2: "isoDate_utc (newDate_utc ''2016-10-05T20:10:00Z'') = ''2016-10-05''"
    by (simp add: calendar_examples)
  have k: "''2016-10-06T09:30:00Z'' \<noteq> []"
    by simp
  have k': "isoDate_utc (newDate_utc ''2016-10-06T09:30:00Z'') = ''2016-10-06''"
    by (simp add: calendar_examples)
  show ?thesis
    by (rule worked_examples [OF d3 d2 c1 c2 k k'])
qed

text \<open>
  C4: over a non-empty range from the start date to today, where \<open>isoDate\<close> gives
  different days different keys, the keys of the aggregated mapping are the ISO dates of
  the days of the range, in order: one entry for each day, none twice, none from outside.
\<close>

theorem one_entry_per_day:
  assumes "start \<le> today" and "inj_on isoDate {start..today}"
  shows "map fst (aggregate isoDate newDate (eachDayUntilToday today start) issues) =
           map isoDate [start..today] \<and>
         distinct (map fst (aggregate isoDate newDate (eachDayUntilToday today start) issues)) \<and>
         fst ` set (aggregate isoDate newDate (eachDayUntilToday today start) issues) =
           isoDate ` {start..today} \<and>
         int (length (aggregate isoDate newDate (eachDayUntilToday today start) issues)) =
           today - start + 1"
proof -
  from assms(2) have d: "distinct (map isoDate [start..today])"
    by (simp add: distinct_map)
  then have keys: "date_keys isoDate (eachDayUntilToday today start) = map isoDate [start..today]"
    by (simp add: date_keys_def eachDayUntilToday_def first_occurrences_distinct)
  have "fst ` set (aggregate isoDate newDate (eachDayUntilToday today start) issues) =
          set (map fst (aggregate isoDate newDate (eachDayUntilToday today start) issues))"
    by simp
  also have "\<dots> = isoDate ` {start..today}"
    by (simp only: aggregate_keys keys) simp
  finally have s: "fst ` set (aggregate isoDate newDate (eachDayUntilToday today start) issues) =
                     isoDate ` {start..today}" .
  have "length (aggregate isoDate newDate (eachDayUntilToday today start) issues) =
          length [start..today]"
    by (simp add: aggregate_length keys)
  with assms(1) have l: "int (length (aggregate isoDate newDate (eachDayUntilToday today start) issues)) =
                           today - start + 1"
    by simp
  from d s l show ?thesis
    by (simp add: aggregate_keys keys)
qed

theorem one_entry_per_day_witness:
  "map fst (aggregate isoDate_utc newDate_utc (eachDayUntilToday 17081 17079)
      [\<lparr>created_at = ''2016-10-05T16:35:00Z'', closed_at = Some ''2016-10-06T09:30:00Z''\<rparr>]) =
     [''2016-10-05'', ''2016-10-06'', ''2016-10-07'']"
proof -
  have le: "(17079 :: int) \<le> 17081"
    by simp
  have "distinct (map isoDate_utc [17079..17081])"
    by (simp add: calendar_examples)
  then have "inj_on isoDate_utc (set [17079..17081])"
    by (simp only: distinct_map)
  then have inj: "inj_on isoDate_utc {17079..17081}"
    by (simp only: set_upto)
  from one_entry_per_day [OF le inj] show ?thesis
    by (simp add: calendar_examples)
qed

text \<open>
  C9: at every position of the aggregated range the stored \<open>totalOpened + totalClosed\<close>
  is the number of issues created on a day of the range up to that position, and
  \<open>totalOpened\<close> is that number minus the number of issues closed on a day of the range
  up to that position.
\<close>

theorem totals_count_issues:
  assumes "j < length (date_keys isoDate days)"
  shows "\<exists>r. aggregate isoDate newDate days issues ! j = (date_keys isoDate days ! j, r) \<and>
           totalOpened r + totalClosed r =
             int (length (created_within isoDate newDate (take (Suc j) (date_keys isoDate days)) issues)) \<and>
           totalOpened r =
             int (length (created_within isoDate newDate (take (Suc j) (date_keys isoDate days)) issues))
             - int (length (closed_within isoDate newDate (take (Suc j) (date_keys isoDate days)) issues))"
  by (simp add: aggregate_nth [OF assms])

theorem totals_count_issues_witness:
  "\<exists>r. aggregate isoDate_utc newDate_utc [17079, 17080]
          [\<lparr>created_at = ''2016-10-05T16:35:00Z'', closed_at = Some ''2016-10-06T09:30:00Z''\<rparr>,
           \<lparr>created_at = ''2016-10-05T20:10:00Z'', closed_at = None\<rparr>] ! 1 = (''2016-10-06'', r) \<and>
        totalOpened r + totalClosed r = 2 \<and> totalOpened r = 2 - 1"
proof -
  have "1 < length (date_keys isoDate_utc [17079, 17080])"
    by (simp add: date_keys_2)
  from totals_count_issues [OF this, of newDate_utc
      "[\<lparr>created_at = ''2016-10-05T16:35:00Z'', closed_at = Some ''2016-10-06T09:30:00Z''\<rparr>,
        \<lparr>created_at = ''2016-10-05T20:10:00Z'', closed_at = None\<rparr>]"]
  show ?thesis
    by (simp add: date_keys_2 created_within_def closed_within_def closed_on_def calendar_examples)
qed

text \<open>
  C10: the aggregated mapping does not depend on the order of the issue list: two lists
  with the same issues, each as many times, give the same mapping.
\<close>

theorem aggregate_permutation:
  assumes "mset issues = mset issues'"
  shows "aggregate isoDate newDate days issues = aggregate isoDate newDate days issues'"
  using assms by (rule aggregate_mset)

theorem aggregate_permutation_witness:
  "aggregate isoDate_utc newDate_utc (eachDayUntilToday 17080 17079)
     [\<lparr>created_at = ''2016-10-05T16:35:00Z'', closed_at = Some ''2016-10-06T09:30:00Z''\<rparr>,
      \<lparr>created_at = ''2016-10-05T20:10:00Z'', closed_at = None\<rparr>] =
   aggregate isoDate_utc newDate_utc (eachDayUntilToday 17080 17079)
     [\<lparr>created_at = ''2016-10-05T20:10:00Z'', closed_at = None\<rparr>,
      \<lparr>created_at = ''2016-10-05T16:35:00Z'', closed_at = Some ''2016-10-06T09:30:00Z''\<rparr>]"
proof -
  have "mset [\<lparr>created_at = ''2016-10-05T16:35:00Z'', closed_at = Some ''2016-10-06T09:30:00Z''\<rparr>,
              \<lparr>created_at = ''2016-10-05T20:10:00Z'', closed_at = None\<rparr>] =
        mset [\<lparr>created_at = ''2016-10-05T20:10:00Z'', closed_at = None\<rparr>,
              \<lparr>created_at = ''2016-10-05T16:35:00Z'', closed_at = Some ''2016-10-06T09:30:00Z''\<rparr>]"
    by (simp add: add_mset_commute)
  then show ?thesis
    by (rule aggregate_permutation)
qed

section \<open>Properties of the Issue Fetcher\<close>

lemma unshift_items:
  "\<forall>i\<in>set items. pull_request i = None \<Longrightarrow>
     foldl (\<lambda>issues item. if pull_request item \<noteq> None then issues else issue_of item # issues)
       issues items = rev (map issue_of items) @ issues"
  by (induction items arbitrary: issues) simp_all

lemma unshift_page_rev:
  "unshift_page issuesPage issues =
     rev (map issue_of (filter (\<lambda>i. pull_request i = None) issuesPage)) @ issues"
  unfolding unshift_page_def by (rule unshift_items) simp

lemma fetched_append [simp]:
  "fetched listForRepo (xs @ ys) = fetched listForRepo xs @ fetched listForRepo ys"
  by (simp add: fetched_def)

lemma fetched_Nil [simp]: "fetched listForRepo [] = []"
  by (simp add: fetched_def)

text \<open>What a finished loop returns, whether or not it has a ceiling.\<close>

lemma getIssues_loop_result:
  assumes "getIssues_loop listForRepo hardLimitPage page issues requested = Some y"
  shows "\<exists>new. fst y = requested @ new \<and>
           (\<forall>out. snd y = Inr out \<longrightarrow>
              out = rev (map issue_of (filter (\<lambda>i. pull_request i = None) (fetched listForRepo new)))
                      @ issues)"
  using assms
proof (induct rule: getIssues_loop.raw_induct [rotated 1, consumes 1, case_names 1])
  case (1 loop listForRepo hardLimitPage page issues requested y)
  show ?case
  proof (cases "within_limit page hardLimitPage")
    case False
    with 1(2) have "y = (requested, Inr issues)"
      by simp
    then show ?thesis
      by simp
  next
    case True
    show ?thesis
    proof (cases "listForRepo page")
      case (Inl e)
      with True 1(2) have "y = (requested @ [page], Inl e)"
        by simp
      then show ?thesis
        by simp
    next
      case (Inr issuesPage)
      show ?thesis
      proof (cases "issuesPage = []")
        case True
        with \<open>within_limit page hardLimitPage\<close> Inr 1(2) have "y = (requested @ [page], Inr issues)"
          by simp
        with Inr True show ?thesis
          by (auto simp: fetched_def)
      next
        case False
        with \<open>within_limit page hardLimitPage\<close> Inr 1(2)
        have "loop listForRepo hardLimitPage (page + 1) (unshift_page issuesPage issues)
                (requested @ [page]) = Some y"
          by simp
        from 1(1) [OF this] obtain new where
          new: "fst y = (requested @ [page]) @ new"
          "\<forall>out. snd y = Inr out \<longrightarrow>
               out = rev (map issue_of (filter (\<lambda>i. pull_request i = None) (fetched listForRepo new)))
                       @ unshift_page issuesPage issues"
          by blast
        have "fetched listForRepo (page # new) = issuesPage @ fetched listForRepo new"
          using Inr by (simp add: fetched_def)
        with new have "fst y = requested @ (page # new) \<and>
           (\<forall>out. snd y = Inr out \<longrightarrow>
              out = rev (map issue_of (filter (\<lambda>i. pull_request i = None)
                      (fetched listForRepo (page # new)))) @ issues)"
          by (simp add: unshift_page_rev)
        then show ?thesis
          by blast
      qed
    qed
  qed
qed

text \<open>With a ceiling the loop ends, after at most as many requests as the ceiling leaves.\<close>

lemma getIssues_loop_finite:
  "\<exists>new result. getIssues_loop listForRepo (Some N) page issues requested
       = Some (requested @ new, result) \<and> int (length new) \<le> max 0 (N - page + 1)"
proof (induction n \<equiv> "nat (N + 1 - page)" arbitrary: page issues requested)
  case 0
  then have "\<not> within_limit page (Some N)"
    by (simp add: within_limit_def)
  then have "getIssues_loop listForRepo (Some N) page issues requested = Some (requested @ [], Inr issues)"
    by (subst getIssues_loop.simps) simp
  then show ?case
    by (intro exI [of _ "[]"] exI [of _ "Inr issues"]) simp
next
  case (Suc n)
  then have le: "page \<le> N"
    by simp
  then have w: "within_limit page (Some N)"
    by (simp add: within_limit_def)
  show ?case
  proof (cases "listForRepo page")
    case (Inl e)
    with w have "getIssues_loop listForRepo (Some N) page issues requested
                   = Some (requested @ [page], Inl e)"
      by (subst getIssues_loop.simps) simp
    with le show ?thesis
      by (intro exI [of _ "[page]"] exI [of _ "Inl e"]) simp
  next
    case (Inr issuesPage)
    show ?thesis
    proof (cases "issuesPage = []")
      case True
      with w Inr have "getIssues_loop listForRepo (Some N) page issues requested
                         = Some (requested @ [page], Inr issues)"
        by (subst getIssues_loop.simps) simp
      with le show ?thesis
        by (intro exI [of _ "[page]"] exI [of _ "Inr issues"]) simp
    next
      case False
      from Suc.hyps(2) have "n = nat (N + 1 - (page + 1))"
        by simp
      from Suc.hyps(1) [OF this] obtain new result where
        rec: "getIssues_loop listForRepo (Some N) (page + 1) (unshift_page issuesPage issues)
                (requested @ [page]) = Some ((requested @ [page]) @ new, result)"
        and len: "int (length new) \<le> max 0 (N - (page + 1) + 1)"
        by blast
      from w Inr False rec
      have "getIssues_loop listForRepo (Some N) page issues requested
              = Some (requested @ (page # new), result)"
        by (subst getIssues_loop.simps) simp
      moreover from len le have "int (length (page # new)) \<le> max 0 (N - page + 1)"
        by simp
      ultimately show ?thesis
        by blast
    qed
  qed
qed

text \<open>The loop ends at the first empty page that the ceiling lets it request.\<close>

lemma getIssues_loop_empty_page:
  assumes "page \<le> k" and "within_limit k hardLimitPage" and "listForRepo k = Inr []"
    and "\<forall>p. page \<le> p \<and> p < k \<longrightarrow> (\<exists>items. listForRepo p = Inr items \<and> items \<noteq> [])"
  shows "\<exists>out. getIssues_loop listForRepo hardLimitPage page issues requested
           = Some (requested @ [page..k], Inr out)"
  using assms(1,4)
proof (induction n \<equiv> "nat (k - page)" arbitrary: page issues requested)
  case 0
  then have "page = k"
    by simp
  with assms(2,3) have "getIssues_loop listForRepo hardLimitPage page issues requested
                          = Some (requested @ [page], Inr issues)"
    by (subst getIssues_loop.simps) simp
  with \<open>page = k\<close> show ?case
    by simp
next
  case (Suc n)
  then have lt: "page < k"
    by simp
  with assms(2) have w: "within_limit page hardLimitPage"
    by (simp add: within_limit_def split: option.splits)
  from Suc.prems(2) lt obtain items where items: "listForRepo page = Inr items" "items \<noteq> []"
    by auto
  from Suc.hyps(2) have n: "n = nat (k - (page + 1))"
    by simp
  from lt have le: "page + 1 \<le> k"
    by simp
  from Suc.prems(2)
  have rest: "\<forall>p. page + 1 \<le> p \<and> p < k \<longrightarrow> (\<exists>items. listForRepo p = Inr items \<and> items \<noteq> [])"
    by simp
  from Suc.hyps(1) [OF n le rest] obtain out where
    "getIssues_loop listForRepo hardLimitPage (page + 1) (unshift_page items issues)
       (requested @ [page]) = Some ((requested @ [page]) @ [page + 1..k], Inr out)"
    by blast
  with w items have "getIssues_loop listForRepo hardLimitPage page issues requested
                       = Some (requested @ page # [page + 1..k], Inr out)"
    by (subst getIssues_loop.simps) simp
  moreover from lt have "[page..k] = page # [page + 1..k]"
    by (simp add: upto_rec1)
  ultimately show ?case
    by simp
qed

lemma getIssues_example:
  "getIssues example_tracker (Some 2) =
     Some ([1, 2],
       Inr [\<lparr>created_at = ''2016-10-05T20:10:00Z'', closed_at = None\<rparr>,
            \<lparr>created_at = ''2016-10-05T16:35:00Z'', closed_at = Some ''2016-10-06T09:30:00Z''\<rparr>])"
proof -
  have 3: "getIssues_loop example_tracker (Some 2) 3 issues requested = Some (requested, Inr issues)"
    for issues requested
    by (subst getIssues_loop.simps) (simp add: within_limit_def)
  have 2: "getIssues_loop example_tracker (Some 2) 2 issues requested =
             Some (requested @ [2], Inr (\<lparr>created_at = ''2016-10-05T20:10:00Z'', closed_at = None\<rparr> # issues))"
    for issues requested
    by (subst getIssues_loop.simps)
      (simp add: within_limit_def example_tracker_def unshift_page_def issue_of_def 3)
  show ?thesis
    unfolding getIssues_def
    by (subst getIssues_loop.simps)
      (simp add: within_limit_def example_tracker_def unshift_page_def issue_of_def 2)
qed

section \<open>The claims about the Issue Fetcher\<close>

text \<open>
  C6: with a ceiling \<open>getIssues\<close> always returns, and whenever it returns a list, with
  or without a ceiling, the list is made of the items of the fetched pages that carry no
  \<open>pull_request\<close>, each once (latest first), and of nothing else; so the counts of
  every day are those of these items alone.
\<close>

theorem getIssues_drops_pull_requests:
  "(\<exists>y. getIssues listForRepo (Some N) = Some y) \<and>
   (getIssues listForRepo hardLimitPage = Some (requested, Inr issues) \<longrightarrow>
      issues = rev (map issue_of
                 (filter (\<lambda>i. pull_request i = None) (fetched listForRepo requested))) \<and>
      aggregate isoDate newDate days issues =
        aggregate isoDate newDate days
          (map issue_of (filter (\<lambda>i. pull_request i = None) (fetched listForRepo requested))))"
proof (intro conjI impI)
  from getIssues_loop_finite [of listForRepo N 1 "[]" "[]"]
  show "\<exists>y. getIssues listForRepo (Some N) = Some y"
    by (auto simp: getIssues_def)
next
  assume "getIssues listForRepo hardLimitPage = Some (requested, Inr issues)"
  then have "getIssues_loop listForRepo hardLimitPage 1 [] [] = Some (requested, Inr issues)"
    by (simp add: getIssues_def)
  from getIssues_loop_result [OF this]
  show eq: "issues = rev (map issue_of
                    (filter (\<lambda>i. pull_request i = None) (fetched listForRepo requested)))"
    by simp
  then have "mset issues =
               mset (map issue_of (filter (\<lambda>i. pull_request i = None) (fetched listForRepo requested)))"
    by simp
  then show "aggregate isoDate newDate days issues =
           aggregate isoDate newDate days
             (map issue_of (filter (\<lambda>i. pull_request i = None) (fetched listForRepo requested)))"
    by (rule aggregate_mset)
qed

theorem getIssues_drops_pull_requests_witness:
  "[\<lparr>created_at = ''2016-10-05T20:10:00Z'', closed_at = None\<rparr>,
    \<lparr>created_at = ''2016-10-05T16:35:00Z'', closed_at = Some ''2016-10-06T09:30:00Z''\<rparr>] =
   rev (map issue_of (filter (\<lambda>i. pull_request i = None) (fetched example_tracker [1, 2])))"
  using getIssues_drops_pull_requests [of example_tracker _ "Some 2" "[1, 2]"
      "[\<lparr>created_at = ''2016-10-05T20:10:00Z'', closed_at = None\<rparr>,
        \<lparr>created_at = ''2016-10-05T16:35:00Z'', closed_at = Some ''2016-10-06T09:30:00Z''\<rparr>]"]
    getIssues_example
  by blast

text \<open>
  C7: with a page-count ceiling \<open>N\<close> the fetcher returns, whatever the tracker answers,
  after requesting at most \<open>N\<close> pages; and when page \<open>k\<close>, within the ceiling, is the
  first empty page (the pages before it were returned non-empty), it requests exactly
  the pages 1 to \<open>k\<close> and returns a list, not an error.
\<close>

theorem getIssues_ceiling:
  "(\<exists>requested result. getIssues listForRepo (Some N) = Some (requested, result) \<and>
      int (length requested) \<le> max 0 N) \<and>
   (1 \<le> k \<and> k \<le> N \<and> listForRepo k = Inr [] \<and>
    (\<forall>p. 1 \<le> p \<and> p < k \<longrightarrow> (\<exists>items. listForRepo p = Inr items \<and> items \<noteq> [])) \<longrightarrow>
      (\<exists>issues. getIssues listForRepo (Some N) = Some ([1..k], Inr issues)))"
proof
  from getIssues_loop_finite [of listForRepo N 1 "[]" "[]"]
  show "\<exists>requested result. getIssues listForRepo (Some N) = Some (requested, result) \<and>
      int (length requested) \<le> max 0 N"
    by (simp add: getIssues_def)
next
  show "1 \<le> k \<and> k \<le> N \<and> listForRepo k = Inr [] \<and>
    (\<forall>p. 1 \<le> p \<and> p < k \<longrightarrow> (\<exists>items. listForRepo p = Inr items \<and> items \<noteq> [])) \<longrightarrow>
      (\<exists>issues. getIssues listForRepo (Some N) = Some ([1..k], Inr issues))"
  proof
    assume a: "1 \<le> k \<and> k \<le> N \<and> listForRepo k = Inr [] \<and>
      (\<forall>p. 1 \<le> p \<and> p < k \<longrightarrow> (\<exists>items. listForRepo p = Inr items \<and> items \<noteq> []))"
    then have "within_limit k (Some N)"
      by (simp add: within_limit_def)
    with a have "\<exists>out. getIssues_loop listForRepo (Some N) 1 [] [] = Some ([] @ [1..k], Inr out)"
      by (intro getIssues_loop_empty_page) simp_all
    then show "\<exists>issues. getIssues listForRepo (Some N) = Some ([1..k], Inr issues)"
      by (simp add: getIssues_def)
  qed
qed

theorem getIssues_ceiling_witness:
  "(\<exists>requested result. getIssues example_tracker (Some 5) = Some (requested, result) \<and>
      int (length requested) \<le> 5) \<and>
   (\<exists>issues. getIssues example_tracker (Some 5) = Some ([1, 2, 3], Inr issues))"
proof -
  have "1 \<le> (3 :: int) \<and> (3 :: int) \<le> 5 \<and> example_tracker 3 = Inr [] \<and>
    (\<forall>p. 1 \<le> p \<and> p < 3 \<longrightarrow> (\<exists>items. example_tracker p = Inr items \<and> items \<noteq> []))"
    by (auto simp: example_tracker_def)
  moreover have "[1..3] = [1, 2, 3 :: int]"
    by code_simp
  ultimately show ?thesis
    using getIssues_ceiling [of example_tracker 5 3] by simp
qed

section \<open>Properties of the handler\<close>

lemma createMany_duplicate:
  "\<exists>row\<in>set rows. fst row \<in> fst ` set db \<Longrightarrow>
     createManyDaysTransactional rows db = Inl (PrismaClientKnownRequestError ''P2002'')"
proof (induction rows arbitrary: db)
  case Nil
  then show ?case by simp
next
  case (Cons row rows)
  show ?case
  proof (cases "fst row \<in> fst ` set db")
    case True
    then show ?thesis
      by (simp add: createDay_def)
  next
    case False
    with Cons.prems have "\<exists>r\<in>set rows. fst r \<in> fst ` set (db @ [row])"
      by auto
    from Cons.IH [OF this] False show ?thesis
      by (simp add: createDay_def)
  qed
qed

text \<open>The handler always passes a ceiling to the fetcher, so every request is answered.\<close>

lemma handler_returns:
  "\<exists>y. handler SECRET listForRepo isoDate newDate today req db = Some y"
proof -
  let ?tracker = "listForRepo (nullish (owner req) ''vercel'') (nullish (repo req) ''next.js'')"
  from getIssues_loop_finite [of ?tracker "nullish (page_limit req) 2" 1 "[]" "[]"]
  obtain requested result where
    "getIssues ?tracker (Some (nullish (page_limit req) 2)) = Some (requested, result)"
    by (auto simp: getIssues_def)
  then show ?thesis
    by (simp add: handler_def Let_def split: sum.splits)
qed

lemma aggregate_key_set:
  "fst ` set (aggregate isoDate newDate days issues) = isoDate ` set days"
proof -
  have "fst ` set (aggregate isoDate newDate days issues) =
          set (map fst (aggregate isoDate newDate days issues))"
    by simp
  also have "\<dots> = isoDate ` set days"
    by (simp only: aggregate_keys) (simp add: date_keys_def)
  finally show ?thesis .
qed

lemma catch_error_duplicate:
  "catch_error e = Json 400 (Message ''Already exists'') \<longleftrightarrow>
     e = PrismaClientKnownRequestError ''P2002''"
  by (simp add: catch_error_def split: error.splits)

lemma catch_error_generic:
  "e \<noteq> PrismaClientKnownRequestError ''P2002'' \<Longrightarrow>
     catch_error e = Json 500 (Message ''Internal server error'')"
  by (simp add: catch_error_def split: error.splits)

lemma aggregate_example:
  "aggregate isoDate_utc newDate_utc (eachDayUntilToday 17080 17079)
     [\<lparr>created_at = ''2016-10-05T20:10:00Z'', closed_at = None\<rparr>,
      \<lparr>created_at = ''2016-10-05T16:35:00Z'', closed_at = Some ''2016-10-06T09:30:00Z''\<rparr>] =
     [(''2016-10-05'', \<lparr>totalOpened = 2, totalClosed = 0\<rparr>),
      (''2016-10-06'', \<lparr>totalOpened = 1, totalClosed = 1\<rparr>)]"
  by (simp add: aggregate_eval)

section \<open>The claims about the handler\<close>

text \<open>
  C5: when a request reaches the bulk persistence (a POST with the right secret, the
  fetch returned, \<open>skip_save\<close> unset) and the datastore already holds a record of one of
  the dates of the batch, the transaction fails with the duplicate-key error, the
  handler answers 400 "Already exists" and the datastore is left as it was; every
  other error is answered 500 "Internal server error".
\<close>

theorem duplicate_date_conflict:
  assumes "req_method req = ''POST''" and "SECRET = secret req" and "\<not> skip_save req"
    and "getIssues (listForRepo (nullish (owner req) ''vercel'') (nullish (repo req) ''next.js''))
           (Some (nullish (page_limit req) 2)) = Some (requested, Inr issues)"
    and "\<exists>d\<in>set (eachDayUntilToday today (FIRST_COMMIT_DATE newDate)). isoDate d \<in> fst ` set db"
  shows "createManyDaysTransactional
           (aggregate isoDate newDate (eachDayUntilToday today (FIRST_COMMIT_DATE newDate)) issues) db
           = Inl (PrismaClientKnownRequestError ''P2002'') \<and>
         handler SECRET listForRepo isoDate newDate today req db =
           Some (Json 400 (Message ''Already exists''), db) \<and>
         (\<forall>e. e \<noteq> PrismaClientKnownRequestError ''P2002'' \<longrightarrow>
            catch_error e = Json 500 (Message ''Internal server error''))"
proof -
  let ?dates = "aggregate isoDate newDate (eachDayUntilToday today (FIRST_COMMIT_DATE newDate)) issues"
  from assms(5) have "\<exists>k\<in>fst ` set ?dates. k \<in> fst ` set db"
    by (simp only: aggregate_key_set) blast
  then have "\<exists>row\<in>set ?dates. fst row \<in> fst ` set db"
    by blast
  then have failed: "createManyDaysTransactional ?dates db = Inl (PrismaClientKnownRequestError ''P2002'')"
    by (rule createMany_duplicate)
  with assms(1-4) have "handler SECRET listForRepo isoDate newDate today req db =
           Some (Json 400 (Message ''Already exists''), db)"
    by (simp add: handler_def catch_error_def)
  with failed show ?thesis
    by (simp add: catch_error_generic)
qed

theorem duplicate_date_conflict_witness:
  "handler (Some ''s3cret'') (\<lambda>owner repo. example_tracker) isoDate_utc newDate_utc 17080
     \<lparr>req_method = ''POST'', secret = Some ''s3cret'', owner = None, repo = None, page_limit = None,
      skip_save = False\<rparr>
     [(''2016-10-06'', \<lparr>totalOpened = 7, totalClosed = 3\<rparr>)] =
   Some (Json 400 (Message ''Already exists''), [(''2016-10-06'', \<lparr>totalOpened = 7, totalClosed = 3\<rparr>)])"
proof -
  let ?req = "\<lparr>req_method = ''POST'', secret = Some ''s3cret'', owner = None, repo = None,
               page_limit = None, skip_save = False\<rparr>"
  have 1: "req_method ?req = ''POST''" and 2: "Some ''s3cret'' = secret ?req" and 3: "\<not> skip_save ?req"
    by simp_all
  have 4: "getIssues ((\<lambda>owner repo. example_tracker) (nullish (owner ?req) ''vercel'')
                (nullish (repo ?req) ''next.js''))
             (Some (nullish (page_limit ?req) 2)) =
           Some ([1, 2],
             Inr [\<lparr>created_at = ''2016-10-05T20:10:00Z'', closed_at = None\<rparr>,
                  \<lparr>created_at = ''2016-10-05T16:35:00Z'', closed_at = Some ''2016-10-06T09:30:00Z''\<rparr>])"
    by (simp add: nullish_def getIssues_example)
  have 5: "\<exists>d\<in>set (eachDayUntilToday 17080 (FIRST_COMMIT_DATE newDate_utc)).
             isoDate_utc d \<in> fst ` set [(''2016-10-06'', \<lparr>totalOpened = 7, totalClosed = 3\<rparr>)]"
    by (simp add: FIRST_COMMIT_DATE_def eachDay_2 calendar_examples)
  from duplicate_date_conflict [OF 1 2 3 4 5] show ?thesis
    by (rule conjunct1 [OF conjunct2])
qed

text \<open>
  C8: the mapping that a run returns is the aggregation of the fetched issues over the
  days from the first commit to today, computed from accumulators that start at 0 in
  every run; it does not depend on the state of the datastore or on an earlier run. Two
  runs on the same request, tracker and clock that return a mapping return the same one.
\<close>

theorem aggregation_deterministic:
  assumes "handler SECRET listForRepo isoDate newDate today req db1 = Some (Json 200 (Dates m1), db1')"
    and "handler SECRET listForRepo isoDate newDate today req db2 = Some (Json 200 (Dates m2), db2')"
  shows "m1 = m2 \<and>
         (\<exists>requested issues.
            getIssues (listForRepo (nullish (owner req) ''vercel'') (nullish (repo req) ''next.js''))
              (Some (nullish (page_limit req) 2)) = Some (requested, Inr issues) \<and>
            m1 = aggregate isoDate newDate (eachDayUntilToday today (FIRST_COMMIT_DATE newDate)) issues)"
proof -
  have run: "\<exists>requested issues.
            getIssues (listForRepo (nullish (owner req) ''vercel'') (nullish (repo req) ''next.js''))
              (Some (nullish (page_limit req) 2)) = Some (requested, Inr issues) \<and>
            m = aggregate isoDate newDate (eachDayUntilToday today (FIRST_COMMIT_DATE newDate)) issues"
    if "handler SECRET listForRepo isoDate newDate today req db = Some (Json 200 (Dates m), db')"
    for db db' m
    using that
    by (auto simp: handler_def Let_def catch_error_def
        split: if_splits option.splits sum.splits prod.splits error.splits)
  from run [OF assms(1)] run [OF assms(2)] show ?thesis
    by auto
qed

theorem aggregation_deterministic_witness:
  "\<exists>m1 m2 db1' db2'.
     handler (Some ''s3cret'') (\<lambda>owner repo. example_tracker) isoDate_utc newDate_utc 17080
       \<lparr>req_method = ''POST'', secret = Some ''s3cret'', owner = None, repo = None, page_limit = None,
        skip_save = False\<rparr> [] = Some (Json 200 (Dates m1), db1') \<and>
     handler (Some ''s3cret'') (\<lambda>owner repo. example_tracker) isoDate_utc newDate_utc 17080
       \<lparr>req_method = ''POST'', secret = Some ''s3cret'', owner = None, repo = None, page_limit = None,
        skip_save = False\<rparr> [(''2016-10-04'', \<lparr>totalOpened = 0, totalClosed = 0\<rparr>)]
       = Some (Json 200 (Dates m2), db2') \<and>
     m1 = m2"
proof -
  let ?req = "\<lparr>req_method = ''POST'', secret = Some ''s3cret'', owner = None, repo = None,
               page_limit = None, skip_save = False\<rparr>"
  let ?m = "[(''2016-10-05'', \<lparr>totalOpened = 2, totalClosed = 0\<rparr>),
             (''2016-10-06'', \<lparr>totalOpened = 1, totalClosed = 1\<rparr>)]"
  have 1: "handler (Some ''s3cret'') (\<lambda>owner repo. example_tracker) isoDate_utc newDate_utc 17080
             ?req [] = Some (Json 200 (Dates ?m), ?m)"
    by (simp add: handler_def Let_def nullish_def getIssues_example FIRST_COMMIT_DATE_def
        calendar_examples aggregate_example createDay_def)
  have 2: "handler (Some ''s3cret'') (\<lambda>owner repo. example_tracker) isoDate_utc newDate_utc 17080
             ?req [(''2016-10-04'', \<lparr>totalOpened = 0, totalClosed = 0\<rparr>)] =
           Some (Json 200 (Dates ?m), (''2016-10-04'', \<lparr>totalOpened = 0, totalClosed = 0\<rparr>) # ?m)"
    by (simp add: handler_def Let_def nullish_def getIssues_example FIRST_COMMIT_DATE_def
        calendar_examples aggregate_example createDay_def)
  from aggregation_deterministic [OF 1 2] have "?m = ?m"
    by (rule conjunct1)
  with 1 2 show ?thesis
    by blast
qed

end
